theory Spec2Isabelle
  imports Main "HOL-Library.Sublist" "HOL-Library.Char_ord" "HOL-Library.List_Lexorder"
begin

text \<open>
  A shallow embedding of \<open>script.py\<close>, the whole program of the repository:
  \<open>load_gitignore\<close>, \<open>should_process_file\<close>, \<open>concatenate_directory\<close> and
  \<open>split_concatenated_file\<close>, with what they use of Python's strings, of \<open>pathlib\<close>,
  of \<open>os.walk\<close> and of the file system (POSIX). The definitions come first; the proofs
  of the properties claimed of the program follow them.
\<close>

section \<open>Python strings\<close>

text \<open>
  A Python \<open>str\<close> is modelled as a \<open>string\<close> (a list of characters). The characters
  that \<open>str.strip\<close> and \<open>str.rstrip\<close> remove are the white-space code points below 256:
  tab, line feed, vertical tab, form feed, carriage return, the four separators
  0x1C..0x1F, space, NEL (0x85) and the no-break space (0xA0).
\<close>

definition isspace :: "char \<Rightarrow> bool" where
  "isspace c \<longleftrightarrow> c \<in> set [CHR 0x09, CHR 0x0A, CHR 0x0B, CHR 0x0C, CHR 0x0D,
     CHR 0x1C, CHR 0x1D, CHR 0x1E, CHR 0x1F, CHR 0x20, CHR 0x85, CHR 0xA0]"

definition rstrip :: "string \<Rightarrow> string" where
  "rstrip s = rev (dropWhile isspace (rev s))"

definition lstrip :: "string \<Rightarrow> string" where
  "lstrip s = dropWhile isspace s"

definition strip :: "string \<Rightarrow> string" where
  "strip s = lstrip (rstrip s)"

definition startswith :: "string \<Rightarrow> string \<Rightarrow> bool" where
  "startswith s p = prefix p s"

text \<open>
  \<open>s.split(sep)\<close> for a non-empty separator: scan from the left, cut at every
  occurrence of \<open>sep\<close>, continue after it. (Python raises \<open>ValueError\<close> for an empty
  separator; the program only splits on the literals \<open>"\n// File: "\<close> and \<open>"\n"\<close>.)
  \<open>cur\<close> is the piece collected since the last cut.
\<close>

function split_aux :: "string \<Rightarrow> string \<Rightarrow> string \<Rightarrow> string list" where
  "split_aux sep cur [] = [cur]"
| "split_aux sep cur (c # cs) =
     (if sep \<noteq> [] \<and> prefix sep (c # cs)
      then cur # split_aux sep [] (drop (length sep) (c # cs))
      else split_aux sep (cur @ [c]) cs)"
  by pat_completeness auto
termination
  by (relation "measure (\<lambda>(sep, cur, s). length s)") auto

definition split :: "string \<Rightarrow> string \<Rightarrow> string list" where
  "split s sep = split_aux sep [] s"

text \<open>
  \<open>s.split(sep, 1)\<close> unpacked into two names: the text before the first occurrence of
  \<open>sep\<close> and the text after it; \<open>None\<close> is the \<open>ValueError\<close> of the unpacking when
  \<open>sep\<close> does not occur.
\<close>

fun split_once_aux :: "string \<Rightarrow> string \<Rightarrow> string \<Rightarrow> (string \<times> string) option" where
  "split_once_aux sep cur [] = None"
| "split_once_aux sep cur (c # cs) =
     (if prefix sep (c # cs) then Some (cur, drop (length sep) (c # cs))
      else split_once_aux sep (cur @ [c]) cs)"

definition split_once :: "string \<Rightarrow> string \<Rightarrow> (string \<times> string) option" where
  "split_once s sep = split_once_aux sep [] s"

text \<open>\<open>sep.join(xs)\<close>.\<close>

fun join :: "string \<Rightarrow> string list \<Rightarrow> string" where
  "join sep [] = []"
| "join sep [x] = x"
| "join sep (x # y # ys) = x @ sep @ join sep (y # ys)"

text \<open>
  Iterating over a text file yields its lines, each with its terminating line feed; a
  last line without one is yielded as it is.
\<close>

fun readlines_aux :: "string \<Rightarrow> string \<Rightarrow> string list" where
  "readlines_aux cur [] = (if cur = [] then [] else [cur])"
| "readlines_aux cur (c # cs) =
     (if c = CHR 0x0A then (cur @ [c]) # readlines_aux [] cs
      else readlines_aux (cur @ [c]) cs)"

definition readlines :: "string \<Rightarrow> string list" where
  "readlines s = readlines_aux [] s"

section \<open>Paths (\<open>pathlib\<close>, POSIX flavour)\<close>

text \<open>
  A \<open>Path\<close> is its root (\<open>""\<close>, \<open>"/"\<close> or \<open>"//"\<close>) and its components. Parsing a
  string drops empty components and \<open>"."\<close> components and keeps \<open>".."\<close>.
\<close>

datatype path = Path (root: string) (parts: "string list")

definition posix_root :: "string \<Rightarrow> string" where
  "posix_root s =
     (if prefix ''//'' s \<and> \<not> prefix ''///'' s then ''//''
      else if prefix ''/'' s then ''/'' else [])"

definition components :: "string \<Rightarrow> string list" where
  "components s = filter (\<lambda>c. c \<noteq> [] \<and> c \<noteq> ''.'') (split s ''/'')"

definition Path_of :: "string \<Rightarrow> path" where
  "Path_of s = Path (posix_root s) (components s)"

text \<open>\<open>p / s\<close>: an absolute right operand replaces the left one.\<close>

definition joinpath :: "path \<Rightarrow> string \<Rightarrow> path" where
  "joinpath p s =
     (let q = Path_of s
      in if root q \<noteq> [] then q else Path (root p) (parts p @ parts q))"

definition parent :: "path \<Rightarrow> path" where
  "parent p = Path (root p) (butlast (parts p))"

definition path_name :: "path \<Rightarrow> string" where
  "path_name p = (if parts p = [] then [] else last (parts p))"

text \<open>
  \<open>Path.suffix\<close> of a file name: the text from the last dot on, unless that dot is the
  first or the last character of the name.
\<close>

definition suffix_of :: "string \<Rightarrow> string" where
  "suffix_of name =
     (let ext = rev (takeWhile (\<lambda>c. c \<noteq> CHR ''.'') (rev name))
      in if CHR ''.'' \<in> set name \<and> ext \<noteq> [] \<and> length ext + 1 < length name
         then CHR ''.'' # ext else [])"

text \<open>
  \<open>str(p.relative_to(base))\<close> for a path \<open>p\<close> that lies \<open>rel\<close> below \<open>base\<close>: the
  components joined by \<open>/\<close>, and \<open>"."\<close> for \<open>base\<close> itself.
\<close>

definition rel_str :: "string list \<Rightarrow> string" where
  "rel_str rel = (if rel = [] then ''.'' else join ''/'' rel)"

section \<open>The directory that is read\<close>

text \<open>
  The input directory as \<open>os.walk\<close> sees it: every directory is the list of its entries
  in the order in which the operating system lists them. A file carries the text that
  reading it in text mode returns, or \<open>None\<close> when opening or decoding it fails.
  A directory that does not exist or cannot be listed is walked like an empty one.
\<close>

datatype entry = File string "string option" | Dir string "entry list"

fun files_of :: "entry list \<Rightarrow> (string \<times> string option) list" where
  "files_of [] = []"
| "files_of (File n c # es) = (n, c) # files_of es"
| "files_of (Dir n sub # es) = files_of es"

text \<open>
  \<open>os.walk(top)\<close>, top-down: it yields a directory with the names of its files, then
  walks its sub-directories in listing order. A directory is identified by its components
  below the directory the walk starts in. (The program discards the yielded list of
  sub-directory names.)
\<close>

fun os_walk :: "string list \<Rightarrow> entry list \<Rightarrow> (string list \<times> (string \<times> string option) list) list"
  and walk_subdirs :: "string list \<Rightarrow> entry list \<Rightarrow> (string list \<times> (string \<times> string option) list) list"
where
  "os_walk here es = (here, files_of es) # walk_subdirs here es"
| "walk_subdirs here [] = []"
| "walk_subdirs here (File n c # es) = walk_subdirs here es"
| "walk_subdirs here (Dir n sub # es) = os_walk (here @ [n]) sub @ walk_subdirs here es"

section \<open>Ignore rules\<close>

text \<open>
  \<open>PathSpec\<close> and \<open>GitWildMatchPattern\<close> belong to the external library \<open>pathspec\<close>.
  A compiled \<open>PathSpec\<close> is represented by its \<open>match_file\<close> function, and
  \<open>PathSpec.from_lines(GitWildMatchPattern, patterns)\<close> is a parameter \<open>from_lines\<close> of
  every function that calls it. Compiling a list of patterns is taken to give a matcher;
  what the library does with a pattern it rejects is not part of this model.

  \<open>message\<close> lists what the program prints.
\<close>

type_synonym pathspec = "string \<Rightarrow> bool"

datatype message =
    GitignoreWarning
  | ProcessingError "string list"
  | OutputWritten string
  | OutputWriteError
  | InputReadError
  | Written path
  | WriteError path

definition default_patterns :: "string list" where
  "default_patterns =
     [''.git/'', ''__pycache__/'', ''node_modules/'',
      ''*.pyc'', ''*.pyo'', ''*.pyd'', ''.Python'',
      ''.env'', ''.venv/'', ''env/'', ''venv/'',
      ''.idea/'', ''.vscode/'']"

fun lookup_entry :: "entry list \<Rightarrow> string \<Rightarrow> entry option" where
  "lookup_entry [] k = None"
| "lookup_entry (File n c # es) k = (if n = k then Some (File n c) else lookup_entry es k)"
| "lookup_entry (Dir n sub # es) k = (if n = k then Some (Dir n sub) else lookup_entry es k)"

text \<open>
  The value of \<open>patterns\<close> after the \<open>if gitignore_path.exists()\<close> block, with the
  warning that was printed: the stripped lines of \<open>.gitignore\<close> that are not blank and do
  not start with \<open>#\<close>; the empty list when the file is absent or reading it fails.
\<close>

definition usable_patterns :: "string \<Rightarrow> string list" where
  "usable_patterns text =
     [strip line. line \<leftarrow> readlines text, strip line \<noteq> [] \<and> \<not> startswith line ''#'']"

definition read_patterns :: "entry list \<Rightarrow> string list \<times> message list" where
  "read_patterns es =
     (case lookup_entry es ''.gitignore'' of
        None \<Rightarrow> ([], [])
      | Some (File n (Some text)) \<Rightarrow> (usable_patterns text, [])
      | Some _ \<Rightarrow> ([], [GitignoreWarning]))"

definition gitignore_patterns :: "entry list \<Rightarrow> string list" where
  "gitignore_patterns es =
     (let patterns = fst (read_patterns es)
      in if patterns = [] then default_patterns else patterns)"

definition load_gitignore :: "(string list \<Rightarrow> pathspec) \<Rightarrow> entry list \<Rightarrow> pathspec \<times> message list" where
  "load_gitignore from_lines es = (from_lines (gitignore_patterns es), snd (read_patterns es))"

text \<open>
  \<open>should_process_file(path, base_dir, gitignore_spec)\<close>, where \<open>path\<close> lies \<open>rel\<close>
  below \<open>base_dir\<close>. The name of \<open>base_dir\<close> itself is the last component of the path the
  caller gave.
\<close>

definition should_process_file :: "string list \<Rightarrow> path \<Rightarrow> pathspec \<Rightarrow> bool" where
  "should_process_file rel base_dir gitignore_spec =
     (let relative_path = rel_str rel;
          name = (if rel = [] then path_name base_dir else last rel)
      in \<not> (startswith name ''.'' \<or> gitignore_spec relative_path))"

text \<open>
  A stand-in for the library's matcher on the patterns of the default list, used to run
  the program on concrete directories: a pattern without \<open>/\<close> matches a path when one of
  the path's components matches it as a glob (\<open>*\<close> any run of characters, \<open>?\<close> any one
  character), and a pattern \<open>name/\<close> when a component that is not the last one does.
\<close>

fun glob :: "string \<Rightarrow> string \<Rightarrow> bool" where
  "glob [] [] = True"
| "glob [] (c # cs) = False"
| "glob (p # ps) [] = (p = CHR ''*'' \<and> glob ps [])"
| "glob (p # ps) (c # cs) =
     (if p = CHR ''*'' then glob ps (c # cs) \<or> glob (p # ps) cs
      else (p = CHR ''?'' \<or> p = c) \<and> glob ps cs)"

definition pattern_matches :: "string \<Rightarrow> string \<Rightarrow> bool" where
  "pattern_matches pat file =
     (if pat \<noteq> [] \<and> last pat = CHR ''/''
      then list_ex (glob (butlast pat)) (butlast (split file ''/''))
      else list_ex (glob pat) (split file ''/''))"

definition simple_from_lines :: "string list \<Rightarrow> pathspec" where
  "simple_from_lines patterns file = list_ex (\<lambda>pat. pattern_matches pat file) patterns"

section \<open>The file system that is written\<close>

text \<open>
  The file system the program writes to maps a location (the components of an absolute,
  resolved path) to a file with its text or to a directory. There are no symbolic links
  and no permissions. The kernel resolves a path component by component, each component
  but the last having to be an existing directory; \<open>..\<close> steps to the parent, and stays
  at the root there. A relative path starts at the working directory.
\<close>

datatype node = FileN string | DirN

type_synonym filesystem = "string list \<Rightarrow> node option"

datatype errno = ENOENT | ENOTDIR | EEXIST | EISDIR

definition step :: "string list \<Rightarrow> string \<Rightarrow> string list" where
  "step loc c = (if c = ''..'' then butlast loc else loc @ [c])"

fun walk_dirs :: "filesystem \<Rightarrow> string list \<Rightarrow> string list \<Rightarrow> errno + string list" where
  "walk_dirs fs loc [] = Inr loc"
| "walk_dirs fs loc (c # cs) =
     (case fs (step loc c) of
        None \<Rightarrow> Inl ENOENT
      | Some (FileN s) \<Rightarrow> Inl ENOTDIR
      | Some DirN \<Rightarrow> walk_dirs fs (step loc c) cs)"

definition resolve :: "filesystem \<Rightarrow> string list \<Rightarrow> path \<Rightarrow> errno + string list" where
  "resolve fs wd p =
     (case walk_dirs fs (if root p = [] then wd else []) (butlast (parts p)) of
        Inl e \<Rightarrow> Inl e
      | Inr d \<Rightarrow> Inr (if parts p = [] then d else step d (last (parts p))))"

definition os_mkdir :: "filesystem \<Rightarrow> string list \<Rightarrow> path \<Rightarrow> errno + filesystem" where
  "os_mkdir fs wd p =
     (case resolve fs wd p of
        Inl e \<Rightarrow> Inl e
      | Inr t \<Rightarrow> (case fs t of Some x \<Rightarrow> Inl EEXIST | None \<Rightarrow> Inr (fs(t \<mapsto> DirN))))"

definition is_dir :: "filesystem \<Rightarrow> string list \<Rightarrow> path \<Rightarrow> bool" where
  "is_dir fs wd p = (case resolve fs wd p of Inl e \<Rightarrow> False | Inr t \<Rightarrow> fs t = Some DirN)"

text \<open>\<open>open(p, 'w')\<close> followed by \<open>write(s)\<close>: creates the file or replaces its text.\<close>

definition write_text :: "filesystem \<Rightarrow> string list \<Rightarrow> path \<Rightarrow> string \<Rightarrow> errno + filesystem" where
  "write_text fs wd p s =
     (case resolve fs wd p of
        Inl e \<Rightarrow> Inl e
      | Inr t \<Rightarrow> (case fs t of Some DirN \<Rightarrow> Inl EISDIR | _ \<Rightarrow> Inr (fs(t \<mapsto> FileN s))))"

text \<open>\<open>open(p, 'r')\<close> followed by \<open>read()\<close>.\<close>

definition read_text :: "filesystem \<Rightarrow> string list \<Rightarrow> path \<Rightarrow> errno + string" where
  "read_text fs wd p =
     (case resolve fs wd p of
        Inl e \<Rightarrow> Inl e
      | Inr t \<Rightarrow> (case fs t of None \<Rightarrow> Inl ENOENT | Some DirN \<Rightarrow> Inl EISDIR | Some (FileN s) \<Rightarrow> Inr s))"

text \<open>
  The same for a file named by a string rather than by a \<open>Path\<close>: the kernel takes
  a name that ends in \<open>/\<close> for a directory, and opening it as a file fails.
\<close>

definition open_write :: "filesystem \<Rightarrow> string list \<Rightarrow> string \<Rightarrow> string \<Rightarrow> errno + filesystem" where
  "open_write fsys wd name s =
     (if name \<noteq> [] \<and> last name = CHR ''/'' then Inl EISDIR
      else write_text fsys wd (Path_of name) s)"

definition open_read :: "filesystem \<Rightarrow> string list \<Rightarrow> string \<Rightarrow> errno + string" where
  "open_read fsys wd name =
     (if name \<noteq> [] \<and> last name = CHR ''/'' then Inl ENOTDIR
      else read_text fsys wd (Path_of name))"

text \<open>
  \<open>p.mkdir(parents=True, exist_ok=True)\<close> as \<open>pathlib\<close> does it: try to make the
  directory; when a parent is missing, make the parents first and try again; any other
  error is passed on unless the path is a directory by then.
\<close>

function mkdir_parents :: "filesystem \<Rightarrow> string list \<Rightarrow> path \<Rightarrow> errno + filesystem" where
  "mkdir_parents fs wd p =
     (case os_mkdir fs wd p of
        Inr fs1 \<Rightarrow> Inr fs1
      | Inl ENOENT \<Rightarrow>
          (if parts p = [] then Inl ENOENT
           else (case mkdir_parents fs wd (parent p) of
                   Inl e \<Rightarrow> Inl e
                 | Inr fs1 \<Rightarrow>
                     (case os_mkdir fs1 wd p of
                        Inr fs2 \<Rightarrow> Inr fs2
                      | Inl ENOENT \<Rightarrow> Inl ENOENT
                      | Inl e \<Rightarrow> if is_dir fs1 wd p then Inr fs1 else Inl e)))
      | Inl e \<Rightarrow> if is_dir fs wd p then Inr fs else Inl e)"
  by pat_completeness auto
termination
  by (relation "measure (\<lambda>(fs, wd, p). length (parts p))") (auto simp: parent_def)

declare mkdir_parents.simps [simp del]

record world =
  fs :: filesystem
  cwd :: "string list"
  stdout :: "message list"

definition print :: "message \<Rightarrow> world \<Rightarrow> world" where
  "print m w = w\<lparr>stdout := stdout w @ [m]\<rparr>"

section \<open>Concatenation\<close>

definition default_extensions :: "string list" where
  "default_extensions =
     [''.py'', ''.js'', ''.ts'', ''.jsx'', ''.tsx'', ''.css'', ''.scss'', ''.html'']"

definition marker :: string where
  "marker = CHR 0x0A # ''// File: ''"

text \<open>
  The body of \<open>for file in sorted(files)\<close> for the directory \<open>here\<close>; the state is
  the list \<open>concatenated\<close> and what has been printed.
\<close>

fun process_files ::
  "string list \<Rightarrow> path \<Rightarrow> pathspec \<Rightarrow> string list \<Rightarrow> (string \<times> string option) list \<Rightarrow>
     string list \<times> message list \<Rightarrow> string list \<times> message list" where
  "process_files here base spec allowed [] st = st"
| "process_files here base spec allowed ((file, content) # files) (concatenated, out) =
     (if \<not> should_process_file (here @ [file]) base spec
      then process_files here base spec allowed files (concatenated, out)
      else if allowed \<noteq> [] \<and> suffix_of file \<notin> set allowed
      then process_files here base spec allowed files (concatenated, out)
      else (case content of
              Some text \<Rightarrow>
                process_files here base spec allowed files
                  (concatenated @ [marker @ rel_str (here @ [file]) @ [CHR 0x0A], text, [CHR 0x0A]], out)
            | None \<Rightarrow>
                process_files here base spec allowed files
                  (concatenated, out @ [ProcessingError (here @ [file])])))"

text \<open>The body of \<open>for root, _, files in os.walk(directory_path)\<close>.\<close>

fun walk_loop ::
  "path \<Rightarrow> pathspec \<Rightarrow> string list \<Rightarrow> (string list \<times> (string \<times> string option) list) list \<Rightarrow>
     string list \<times> message list \<Rightarrow> string list \<times> message list" where
  "walk_loop base spec allowed [] st = st"
| "walk_loop base spec allowed ((here, files) # rest) st =
     (if \<not> should_process_file here base spec
      then walk_loop base spec allowed rest st
      else walk_loop base spec allowed rest
             (process_files here base spec allowed (sort_key fst files) st))"

text \<open>
  \<open>concatenate_directory(directory, output_file, allowed_extensions)\<close>. \<open>directory\<close>
  is the path as the caller wrote it and \<open>es\<close> is what that directory holds;
  \<open>output_file\<close> and \<open>allowed_extensions\<close> are \<open>None\<close> when the caller leaves them out.
  The function returns the document, and the world with what it printed and wrote.
\<close>

definition concatenate_directory ::
  "(string list \<Rightarrow> pathspec) \<Rightarrow> string \<Rightarrow> entry list \<Rightarrow> string option \<Rightarrow> string list option \<Rightarrow>
     world \<Rightarrow> string \<times> world" where
  "concatenate_directory from_lines directory es output_file allowed_extensions w =
     (let allowed = (case allowed_extensions of None \<Rightarrow> default_extensions | Some exts \<Rightarrow> exts);
          directory_path = Path_of directory;
          (gitignore_spec, warnings) = load_gitignore from_lines es;
          (concatenated, out) =
             walk_loop directory_path gitignore_spec allowed (os_walk [] es) ([], warnings);
          final_content = concat concatenated;
          w1 = w\<lparr>stdout := stdout w @ out\<rparr>
      in (final_content,
          (case output_file of
             None \<Rightarrow> w1
           | Some f \<Rightarrow>
               if f = [] then w1
               else (case open_write (fs w1) (cwd w1) f final_content of
                       Inr fs1 \<Rightarrow> print (OutputWritten f) (w1\<lparr>fs := fs1\<rparr>)
                     | Inl e \<Rightarrow> print OutputWriteError w1))))"

section \<open>Splitting\<close>

text \<open>
  The body of \<open>for file_content in files\<close>. \<open>Inl\<close> is an exception that leaves
  \<open>split_concatenated_file\<close>: \<open>mkdir\<close> is called outside any \<open>try\<close>.
\<close>

fun process_chunks :: "string \<Rightarrow> string list \<Rightarrow> world \<Rightarrow> errno + world" where
  "process_chunks output_dir [] w = Inr w"
| "process_chunks output_dir (file_content # files) w =
     (case split_once file_content [CHR 0x0A] of
        None \<Rightarrow> process_chunks output_dir files w
      | Some (file_path, content) \<Rightarrow>
          (let output_path = joinpath (Path_of output_dir) file_path
           in case mkdir_parents (fs w) (cwd w) (parent output_path) of
                Inl e \<Rightarrow> Inl e
              | Inr fs1 \<Rightarrow>
                  (case write_text fs1 (cwd w) output_path (rstrip content) of
                     Inr fs2 \<Rightarrow>
                       process_chunks output_dir files (print (Written output_path) (w\<lparr>fs := fs2\<rparr>))
                   | Inl e \<Rightarrow>
                       process_chunks output_dir files (print (WriteError output_path) (w\<lparr>fs := fs1\<rparr>)))))"

text \<open>
  \<open>split_concatenated_file(input_file, output_dir)\<close>. (\<open>split\<close> never returns the
  empty list, so \<open>files[0]\<close> exists.)
\<close>

definition split_concatenated_file :: "string \<Rightarrow> string \<Rightarrow> world \<Rightarrow> errno + world" where
  "split_concatenated_file input_file output_dir w =
     (case open_read (fs w) (cwd w) input_file of
        Inl e \<Rightarrow> Inr (print InputReadError w)
      | Inr content \<Rightarrow>
          (case split content marker of
             [] \<Rightarrow> Inr w
           | first # others \<Rightarrow>
               process_chunks output_dir (if strip first = [] then others else first # others) w))"

section \<open>The document as a list of sections\<close>

text \<open>
  What the claims say about the document is stated on its sections. A section is the
  relative path of a file (as components) with the file's text; \<open>section_text\<close> is the
  text the section stands for. \<open>tree_sections\<close> lists the sections of a directory tree
  by recursion over the tree: the files of the directory itself, in the order of their
  names, when the directory passes the filter; then the sections of each sub-directory,
  in listing order. \<open>ok\<close> is the test on the file name that the extension filter makes.
\<close>

definition section_text :: "string list \<times> string \<Rightarrow> string" where
  "section_text s = marker @ rel_str (fst s) @ [CHR 0x0A] @ snd s @ [CHR 0x0A]"

definition render :: "(string list \<times> string) list \<Rightarrow> string" where
  "render secs = concat (map section_text secs)"

fun kept :: "path \<Rightarrow> pathspec \<Rightarrow> (string \<Rightarrow> bool) \<Rightarrow> string list \<Rightarrow>
    (string \<times> string option) list \<Rightarrow> (string list \<times> string) list" where
  "kept base spec ok here [] = []"
| "kept base spec ok here ((n, c) # files) =
     (case c of
        Some text \<Rightarrow>
          if should_process_file (here @ [n]) base spec \<and> ok n
          then (here @ [n], text) # kept base spec ok here files
          else kept base spec ok here files
      | None \<Rightarrow> kept base spec ok here files)"

definition dir_sections :: "path \<Rightarrow> pathspec \<Rightarrow> (string \<Rightarrow> bool) \<Rightarrow> string list \<Rightarrow>
    (string \<times> string option) list \<Rightarrow> (string list \<times> string) list" where
  "dir_sections base spec ok here files =
     (if should_process_file here base spec then kept base spec ok here (sort_key fst files) else [])"

fun tree_sections :: "path \<Rightarrow> pathspec \<Rightarrow> (string \<Rightarrow> bool) \<Rightarrow> string list \<Rightarrow> entry list \<Rightarrow>
    (string list \<times> string) list"
  and subdir_sections :: "path \<Rightarrow> pathspec \<Rightarrow> (string \<Rightarrow> bool) \<Rightarrow> string list \<Rightarrow> entry list \<Rightarrow>
    (string list \<times> string) list"
where
  "tree_sections base spec ok here es =
     dir_sections base spec ok here (files_of es) @ subdir_sections base spec ok here es"
| "subdir_sections base spec ok here [] = []"
| "subdir_sections base spec ok here (File n c # es) = subdir_sections base spec ok here es"
| "subdir_sections base spec ok here (Dir n sub # es) =
     tree_sections base spec ok (here @ [n]) sub @ subdir_sections base spec ok here es"

definition extension_ok :: "string list \<Rightarrow> string \<Rightarrow> bool" where
  "extension_ok allowed name \<longleftrightarrow> allowed = [] \<or> suffix_of name \<in> set allowed"

text \<open>The tree without the files that cannot be read.\<close>

fun readable_only :: "entry list \<Rightarrow> entry list" where
  "readable_only [] = []"
| "readable_only (File n None # es) = readable_only es"
| "readable_only (File n (Some text) # es) = File n (Some text) # readable_only es"
| "readable_only (Dir n sub # es) = Dir n (readable_only sub) # readable_only es"

text \<open>A small file system to run the program in: the working directory \<open>/work\<close>.\<close>

definition example_world :: world where
  "example_world =
     \<lparr>fs = Map.empty([] \<mapsto> DirN, [''work''] \<mapsto> DirN), cwd = [''work''], stdout = []\<rparr>"

section \<open>Well-formed directories and the files written\<close>

text \<open>
  The names in one directory are pairwise different, and a name is not empty, not \<open>.\<close>
  or \<open>..\<close>, and has no \<open>/\<close> in it.
\<close>

definition valid_name :: "string \<Rightarrow> bool" where
  "valid_name n \<longleftrightarrow> n \<noteq> [] \<and> n \<noteq> ''.'' \<and> n \<noteq> ''..'' \<and> CHR ''/'' \<notin> set n"




text \<open>The file system after the directories \<open>dirs\<close> have been made, one in the other, below \<open>d\<close>.\<close>

fun mk_dirs :: "filesystem \<Rightarrow> string list \<Rightarrow> string list \<Rightarrow> filesystem" where
  "mk_dirs fsys d [] = fsys"
| "mk_dirs fsys d (x # xs) = mk_dirs (fsys(d @ [x] \<mapsto> DirN)) (d @ [x]) xs"

text \<open>
  A file system with a directory \<open>/work/out\<close> to split into and a file
  \<open>/work/notes.txt\<close> beside it.
\<close>

definition outside_world :: world where
  "outside_world =
     \<lparr>fs = Map.empty([] \<mapsto> DirN, [''work''] \<mapsto> DirN, [''work'', ''out''] \<mapsto> DirN,
             [''work'', ''notes.txt''] \<mapsto> FileN ''mine''),
      cwd = [''work''], stdout = []\<rparr>"





section \<open>Concatenation: the document is the rendering of the tree's sections\<close>

lemma process_files_fst:
  "fst (process_files here base spec allowed files (acc, out)) =
     acc @ concat (map (\<lambda>s. [marker @ rel_str (fst s) @ [CHR 0x0A], snd s, [CHR 0x0A]])
                       (kept base spec (extension_ok allowed) here files))"
proof (induction files arbitrary: acc out)
  case Nil
  show ?case by simp
next
  case (Cons f files)
  obtain n c where f: "f = (n, c)" by (cases f)
  show ?case
    unfolding f by (cases c) (auto simp: Cons.IH extension_ok_def)
qed

lemma walk_loop_fst:
  "fst (walk_loop base spec allowed ys st) =
     fst st @ concat (map (\<lambda>s. [marker @ rel_str (fst s) @ [CHR 0x0A], snd s, [CHR 0x0A]])
       (concat (map (\<lambda>y. dir_sections base spec (extension_ok allowed) (fst y) (snd y)) ys)))"
proof (induction ys arbitrary: st)
  case Nil
  show ?case by simp
next
  case (Cons y ys)
  obtain here files where y: "y = (here, files)" by (cases y)
  obtain acc out where st: "st = (acc, out)" by (cases st)
  obtain acc' out' where pf:
    "process_files here base spec allowed (sort_key fst files) (acc, out) = (acc', out')"
    by (cases "process_files here base spec allowed (sort_key fst files) (acc, out)")
  have acc': "acc' = acc @ concat (map (\<lambda>s. [marker @ rel_str (fst s) @ [CHR 0x0A], snd s, [CHR 0x0A]])
                       (kept base spec (extension_ok allowed) here (sort_key fst files)))"
    using process_files_fst [of here base spec allowed "sort_key fst files" acc out] pf by simp
  show ?case
    unfolding y st by (simp add: Cons.IH dir_sections_def pf acc')
qed

lemma os_walk_sections:
  "concat (map (\<lambda>y. dir_sections base spec ok (fst y) (snd y)) (os_walk here es)) =
     tree_sections base spec ok here es"
  "concat (map (\<lambda>y. dir_sections base spec ok (fst y) (snd y)) (walk_subdirs here es)) =
     subdir_sections base spec ok here es"
  by (induction here es and here es rule: os_walk_walk_subdirs.induct) simp_all

lemma concat_triples: "concat (concat (map (\<lambda>s. [a s, b s, c s]) xs)) = concat (map (\<lambda>s. a s @ b s @ c s) xs)"
  by (induction xs) simp_all

lemma document_sections:
  "fst (concatenate_directory from_lines directory es output_file allowed_extensions w) =
     render (tree_sections (Path_of directory) (from_lines (gitignore_patterns es))
               (extension_ok (case allowed_extensions of None \<Rightarrow> default_extensions | Some exts \<Rightarrow> exts))
               [] es)"
proof -
  have st: "section_text = (\<lambda>s. marker @ rel_str (fst s) @ [CHR 0x0A] @ snd s @ [CHR 0x0A])"
    by (simp add: fun_eq_iff section_text_def)
  show ?thesis
    unfolding concatenate_directory_def load_gitignore_def Let_def render_def st
    by (simp add: case_prod_beta walk_loop_fst os_walk_sections(1) concat_triples
          del: os_walk.simps tree_sections.simps)
qed



section \<open>The extension filter and the hidden-file rule on an example\<close>



section \<open>The order of the sections\<close>

lemma kept_names:
  "map (\<lambda>s. last (fst s)) (kept base spec ok here files) =
     map fst (filter (\<lambda>f. snd f \<noteq> None \<and> should_process_file (here @ [fst f]) base spec \<and> ok (fst f)) files)"
proof (induction files)
  case Nil
  show ?case by simp
next
  case (Cons f files)
  obtain n c where f: "f = (n, c)" by (cases f)
  show ?case unfolding f using Cons.IH by (cases c) auto
qed

lemma kept_parent: "s \<in> set (kept base spec ok here files) \<Longrightarrow> butlast (fst s) = here"
proof (induction files)
  case Nil
  then show ?case by simp
next
  case (Cons f files)
  obtain n c where f: "f = (n, c)" by (cases f)
  show ?case using Cons unfolding f by (cases c) (auto split: if_splits)
qed

lemma dir_sections_sorted:
  "sorted (map (\<lambda>s. last (fst s)) (dir_sections base spec ok here files))"
proof -
  have "sorted (map fst (sort_key fst files))"
    by simp
  then have "sorted (map fst (filter (\<lambda>f. snd f \<noteq> None \<and> should_process_file (here @ [fst f]) base spec \<and> ok (fst f))
       (sort_key fst files)))"
    by (rule sorted_filter)
  then show ?thesis
    by (simp add: dir_sections_def kept_names)
qed

lemma dir_sections_parent: "s \<in> set (dir_sections base spec ok here files) \<Longrightarrow> butlast (fst s) = here"
  by (auto simp: dir_sections_def dest: kept_parent split: if_splits)

lemma walk_subdirs_order:
  "map fst (walk_subdirs here es) =
     concat (map (\<lambda>e. case e of Dir n sub \<Rightarrow> map fst (os_walk (here @ [n]) sub) | File n c \<Rightarrow> []) es)"
proof (induction es)
  case Nil
  show ?case by simp
next
  case (Cons e es)
  then show ?case by (cases e) simp_all
qed

text \<open>
  Claim C3, amended. The sections of the document come directory by directory, in the
  order in which \<open>os.walk\<close> yields the directories: a directory first, then its
  sub-directories with their subtrees, in the order in which the system lists them
  (which is not sorted). The sections of one directory are in the lexicographic order of
  their file names, and each of them lies directly in that directory.
\<close>

theorem walk_order:
  "fst (concatenate_directory from_lines directory es output_file allowed_extensions w) =
     render (concat (map (\<lambda>y. dir_sections (Path_of directory) (from_lines (gitignore_patterns es))
                                (extension_ok (case allowed_extensions of None \<Rightarrow> default_extensions | Some exts \<Rightarrow> exts))
                                (fst y) (snd y))
                         (os_walk [] es))) \<and>
   (\<forall>y \<in> set (os_walk [] es).
      sorted (map (\<lambda>s. last (fst s)) (dir_sections base spec ok (fst y) (snd y))) \<and>
      (\<forall>s \<in> set (dir_sections base spec ok (fst y) (snd y)). butlast (fst s) = fst y)) \<and>
   map fst (os_walk here es) =
     here # concat (map (\<lambda>e. case e of Dir n sub \<Rightarrow> map fst (os_walk (here @ [n]) sub) | File n c \<Rightarrow> []) es)"
proof (intro conjI ballI)
  show "fst (concatenate_directory from_lines directory es output_file allowed_extensions w) =
     render (concat (map (\<lambda>y. dir_sections (Path_of directory) (from_lines (gitignore_patterns es))
                                (extension_ok (case allowed_extensions of None \<Rightarrow> default_extensions | Some exts \<Rightarrow> exts))
                                (fst y) (snd y))
                         (os_walk [] es)))"
    unfolding document_sections os_walk_sections(1) ..
next
  fix y
  show "sorted (map (\<lambda>s. last (fst s)) (dir_sections base spec ok (fst y) (snd y)))"
    by (rule dir_sections_sorted)
next
  fix y s
  assume "s \<in> set (dir_sections base spec ok (fst y) (snd y))"
  then show "butlast (fst s) = fst y"
    by (rule dir_sections_parent)
next
  show "map fst (os_walk here es) =
     here # concat (map (\<lambda>e. case e of Dir n sub \<Rightarrow> map fst (os_walk (here @ [n]) sub) | File n c \<Rightarrow> []) es)"
    using walk_subdirs_order [of here es] by simp
qed

theorem walk_order_witness:
  "fst (concatenate_directory simple_from_lines ''proj''
          [Dir ''b'' [File ''x.py'' (Some ''1'')], File ''m.py'' (Some ''2''),
           Dir ''a'' [File ''z.py'' (Some ''3''), File ''y.py'' (Some ''4'')]]
          None None example_world) =
     render [([''m.py''], ''2''), ([''b'', ''x.py''], ''1''), ([''a'', ''y.py''], ''4''), ([''a'', ''z.py''], ''3'')]"
proof -
  have h: "\<not> simple_from_lines default_patterns ''.''" "\<not> simple_from_lines default_patterns ''m.py''"
     "\<not> simple_from_lines default_patterns ''b''" "\<not> simple_from_lines default_patterns ''b/x.py''"
     "\<not> simple_from_lines default_patterns ''a''" "\<not> simple_from_lines default_patterns ''a/y.py''"
     "\<not> simple_from_lines default_patterns ''a/z.py''"
    by code_simp+
  show ?thesis
    using walk_order [of simple_from_lines "''proj''" "[Dir ''b'' [File ''x.py'' (Some ''1'')], File ''m.py'' (Some ''2''),
           Dir ''a'' [File ''z.py'' (Some ''3''), File ''y.py'' (Some ''4'')]]" None None example_world]
    by (simp add: h gitignore_patterns_def read_patterns_def dir_sections_def
          should_process_file_def rel_str_def startswith_def extension_ok_def suffix_of_def
          default_extensions_def path_name_def Path_of_def components_def split_def)
qed

text \<open>
  Claim C3 as stated fails: when the system lists the directory \<open>b\<close> before the
  directory \<open>a\<close>, the section of \<open>b/x.py\<close> comes before the section of \<open>a/y.py\<close>,
  so the directories of the sections are not in lexicographic order.
\<close>

theorem directory_order_counterexample:
  "fst (concatenate_directory simple_from_lines ''proj''
          [Dir ''b'' [File ''x.py'' (Some ''1'')], Dir ''a'' [File ''y.py'' (Some ''2'')]]
          None None example_world) =
     render [([''b'', ''x.py''], ''1''), ([''a'', ''y.py''], ''2'')] \<and>
   \<not> sorted (map (\<lambda>s. butlast (fst s)) [([''b'', ''x.py''], ''1''), ([''a'', ''y.py''], ''2'')])"
proof -
  have h: "\<not> simple_from_lines default_patterns ''.''"
     "\<not> simple_from_lines default_patterns ''b''" "\<not> simple_from_lines default_patterns ''b/x.py''"
     "\<not> simple_from_lines default_patterns ''a''" "\<not> simple_from_lines default_patterns ''a/y.py''"
    by code_simp+
  have "sorted (map (\<lambda>s. butlast (fst s)) [([''b'', ''x.py''], ''1''), ([''a'', ''y.py''], ''2'')]) = False"
    by simp
  then show ?thesis
    unfolding document_sections
    by (simp add: h gitignore_patterns_def read_patterns_def dir_sections_def
          should_process_file_def rel_str_def startswith_def extension_ok_def suffix_of_def
          default_extensions_def path_name_def Path_of_def components_def split_def)
qed


section \<open>The extension filter\<close>

lemma extension_ok_Nil: "extension_ok [] = (\<lambda>n. True)"
  by (simp add: fun_eq_iff extension_ok_def)

lemma extension_ok_default: "extension_ok default_extensions = (\<lambda>n. suffix_of n \<in> set default_extensions)"
  by (simp add: fun_eq_iff extension_ok_def default_extensions_def)

text \<open>
  Claim C4, amended. When the caller passes no \<open>allowed_extensions\<close> (\<open>None\<close>), the
  document is the one for the fixed default list, so files are filtered by extension; when
  the caller passes the empty list, no file is removed for its extension: the document
  holds every readable file that passes the filter predicate in a directory that passes
  it.
\<close>

theorem extension_filter_modes:
  "fst (concatenate_directory from_lines directory es output_file None w) =
     fst (concatenate_directory from_lines directory es output_file (Some default_extensions) w) \<and>
   fst (concatenate_directory from_lines directory es output_file None w) =
     render (tree_sections (Path_of directory) (from_lines (gitignore_patterns es))
               (\<lambda>n. suffix_of n \<in> set default_extensions) [] es) \<and>
   fst (concatenate_directory from_lines directory es output_file (Some []) w) =
     render (tree_sections (Path_of directory) (from_lines (gitignore_patterns es))
               (\<lambda>n. True) [] es)"
  unfolding document_sections by (simp add: extension_ok_Nil extension_ok_default del: tree_sections.simps)

text \<open>
  Claim C4 as stated fails where it says that an absent list disables the filter: with
  no list passed, \<open>notes.txt\<close> is left out of the document, while the empty list keeps
  it.
\<close>

theorem absent_extensions_counterexample:
  "fst (concatenate_directory simple_from_lines ''proj'' [File ''notes.txt'' (Some ''hi'')]
          None None example_world) = [] \<and>
   fst (concatenate_directory simple_from_lines ''proj'' [File ''notes.txt'' (Some ''hi'')]
          None (Some []) example_world) = section_text ([''notes.txt''], ''hi'') \<and>
   fst (concatenate_directory simple_from_lines ''proj'' [File ''notes.txt'' (Some ''hi'')]
          None None example_world) \<noteq>
     render (tree_sections (Path_of ''proj'') (simple_from_lines default_patterns) (\<lambda>n. True) []
               [File ''notes.txt'' (Some ''hi'')])"
proof -
  have h: "\<not> simple_from_lines default_patterns ''.''" "\<not> simple_from_lines default_patterns ''notes.txt''"
    by code_simp+
  show ?thesis
    unfolding document_sections
    by (simp add: h gitignore_patterns_def read_patterns_def dir_sections_def render_def section_text_def
          should_process_file_def rel_str_def startswith_def extension_ok_def suffix_of_def
          default_extensions_def path_name_def Path_of_def components_def split_def)
qed

section \<open>Directories that fail the filter predicate\<close>

text \<open>
  Claim C2 says that no file anywhere under a directory that fails the filter predicate
  reaches the document. The loop only skips the files of such a directory itself and goes
  on with the directories that \<open>os.walk\<close> yields below it: for \<open>.hidden/top.py\<close> and
  \<open>.hidden/sub/a.py\<close>, the directory \<open>.hidden\<close> fails the predicate, \<open>top.py\<close> is
  left out, and \<open>sub/a.py\<close> is in the document.
\<close>

theorem hidden_directory_not_pruned:
  "fst (concatenate_directory simple_from_lines ''proj''
          [Dir ''.hidden'' [File ''top.py'' (Some ''t''), Dir ''sub'' [File ''a.py'' (Some ''x'')]]]
          None None w) =
     section_text ([''.hidden'', ''sub'', ''a.py''], ''x'') \<and>
   \<not> should_process_file [''.hidden''] (Path_of ''proj'') (simple_from_lines default_patterns)"
proof -
  have h: "\<not> simple_from_lines default_patterns ''.''" "\<not> simple_from_lines default_patterns ''.hidden''"
    "\<not> simple_from_lines default_patterns ''.hidden/sub''"
    "\<not> simple_from_lines default_patterns ''.hidden/sub/a.py''"
    by code_simp+
  show ?thesis
    unfolding document_sections
    by (simp add: h gitignore_patterns_def read_patterns_def dir_sections_def render_def
          should_process_file_def rel_str_def startswith_def extension_ok_def suffix_of_def
          default_extensions_def path_name_def Path_of_def components_def split_def)
qed

section \<open>The ignore rules and their default\<close>











section \<open>What \<open>concatenate_directory\<close> returns\<close>

lemma files_of_readable_only:
  "files_of (readable_only es) = filter (\<lambda>f. \<exists>y. snd f = Some y) (files_of es)"
  by (induction es rule: readable_only.induct) simp_all

lemma kept_readable:
  "kept base spec ok here (filter (\<lambda>f. \<exists>y. snd f = Some y) files) = kept base spec ok here files"
proof (induction files)
  case Nil
  show ?case by simp
next
  case (Cons f files)
  obtain n c where f: "f = (n, c)" by (cases f)
  show ?case unfolding f using Cons.IH by (cases c) simp_all
qed

lemma dir_sections_readable:
  "dir_sections base spec ok here (filter (\<lambda>f. \<exists>y. snd f = Some y) files) =
     dir_sections base spec ok here files"
  by (simp add: dir_sections_def filter_sort [symmetric] kept_readable)

lemma tree_sections_readable_only:
  "tree_sections base spec ok here (readable_only es) = tree_sections base spec ok here es"
  "subdir_sections base spec ok here (readable_only es) = subdir_sections base spec ok here es"
proof (induction base spec ok here es and base spec ok here es rule: tree_sections_subdir_sections.induct)
  case (1 base spec ok here es)
  then show ?case
    by (simp add: files_of_readable_only dir_sections_readable)
next
  case (2 base spec ok here)
  show ?case by simp
next
  case (3 base spec ok here n c es)
  then show ?case by (cases c) simp_all
next
  case (4 base spec ok here n sub es)
  then show ?case by simp
qed

lemma concatenate_world:
  "snd (concatenate_directory from_lines directory es (Some f) allowed_extensions w) =
     (let final_content = fst (concatenate_directory from_lines directory es (Some f) allowed_extensions w);
          w1 = snd (concatenate_directory from_lines directory es None allowed_extensions w)
      in if f = [] then w1
         else (case open_write (fs w) (cwd w) f final_content of
                 Inr fs1 \<Rightarrow> print (OutputWritten f) (w1\<lparr>fs := fs1\<rparr>)
               | Inl e \<Rightarrow> print OutputWriteError w1))"
  unfolding concatenate_directory_def Let_def
  by (simp add: case_prod_beta del: os_walk.simps split: sum.splits)

lemma concatenate_no_output_fs:
  "fs (snd (concatenate_directory from_lines directory es None allowed_extensions w)) = fs w"
  unfolding concatenate_directory_def Let_def
  by (simp add: case_prod_beta del: os_walk.simps)

text \<open>
  Claim C8. The string that \<open>concatenate_directory\<close> returns does not depend on the
  output file or on the file system that is written: it is the string returned when no
  output file is given. When writing the output file fails, the file system is left as it
  was and the last message printed is the error. A file that cannot be read is skipped
  and nothing else is: the document is the one of the tree without its unreadable files.
\<close>

theorem concatenate_returns_document:
  "fst (concatenate_directory from_lines directory es output_file allowed_extensions w) =
     fst (concatenate_directory from_lines directory es None allowed_extensions w') \<and>
   (f \<noteq> [] \<and>
    open_write (fs w) (cwd w) f
      (fst (concatenate_directory from_lines directory es (Some f) allowed_extensions w)) = Inl e \<longrightarrow>
      fs (snd (concatenate_directory from_lines directory es (Some f) allowed_extensions w)) = fs w \<and>
      last (stdout (snd (concatenate_directory from_lines directory es (Some f) allowed_extensions w))) =
        OutputWriteError) \<and>
   fst (concatenate_directory from_lines directory es output_file allowed_extensions w) =
     render (tree_sections (Path_of directory) (from_lines (gitignore_patterns es))
               (extension_ok (case allowed_extensions of None \<Rightarrow> default_extensions | Some exts \<Rightarrow> exts))
               [] (readable_only es))"
proof (intro conjI impI)
  show "fst (concatenate_directory from_lines directory es output_file allowed_extensions w) =
     fst (concatenate_directory from_lines directory es None allowed_extensions w')"
    unfolding document_sections ..
next
  assume a: "f \<noteq> [] \<and>
    open_write (fs w) (cwd w) f
      (fst (concatenate_directory from_lines directory es (Some f) allowed_extensions w)) = Inl e"
  then show "fs (snd (concatenate_directory from_lines directory es (Some f) allowed_extensions w)) = fs w"
    by (simp add: concatenate_world concatenate_no_output_fs print_def Let_def)
  from a show "last (stdout (snd (concatenate_directory from_lines directory es (Some f) allowed_extensions w))) =
        OutputWriteError"
    by (simp add: concatenate_world print_def Let_def)
next
  show "fst (concatenate_directory from_lines directory es output_file allowed_extensions w) =
     render (tree_sections (Path_of directory) (from_lines (gitignore_patterns es))
               (extension_ok (case allowed_extensions of None \<Rightarrow> default_extensions | Some exts \<Rightarrow> exts))
               [] (readable_only es))"
    unfolding document_sections tree_sections_readable_only ..
qed

theorem concatenate_returns_document_witness:
  "open_write (fs example_world) (cwd example_world) ''missing/out.txt''
     (fst (concatenate_directory simple_from_lines ''proj''
        [File ''bad.py'' None, File ''a.py'' (Some ''x = 1'')] (Some ''missing/out.txt'') None example_world)) =
     Inl ENOENT \<and>
   fst (concatenate_directory simple_from_lines ''proj''
        [File ''bad.py'' None, File ''a.py'' (Some ''x = 1'')] (Some ''missing/out.txt'') None example_world) =
     section_text ([''a.py''], ''x = 1'') \<and>
   fs (snd (concatenate_directory simple_from_lines ''proj''
        [File ''bad.py'' None, File ''a.py'' (Some ''x = 1'')] (Some ''missing/out.txt'') None example_world)) =
     fs example_world \<and>
   last (stdout (snd (concatenate_directory simple_from_lines ''proj''
        [File ''bad.py'' None, File ''a.py'' (Some ''x = 1'')] (Some ''missing/out.txt'') None example_world))) =
     OutputWriteError"
proof -
  let ?es = "[File ''bad.py'' None, File ''a.py'' (Some ''x = 1'')]"
  let ?doc = "fst (concatenate_directory simple_from_lines ''proj'' ?es (Some ''missing/out.txt'') None example_world)"
  have h: "\<not> simple_from_lines default_patterns ''.''" "\<not> simple_from_lines default_patterns ''a.py''"
    by code_simp+
  have p: "Path_of ''missing/out.txt'' = Path [] [''missing'', ''out.txt'']"
    by (simp add: Path_of_def components_def split_def posix_root_def)
  have w: "open_write (fs example_world) (cwd example_world) ''missing/out.txt'' ?doc = Inl ENOENT"
    by (simp add: open_write_def p write_text_def resolve_def step_def example_world_def)
  have d: "?doc = section_text ([''a.py''], ''x = 1'')"
    using concatenate_returns_document [of simple_from_lines "''proj''" ?es "Some ''missing/out.txt''" None example_world]
    by (simp add: h gitignore_patterns_def read_patterns_def dir_sections_def render_def
          should_process_file_def rel_str_def startswith_def extension_ok_def suffix_of_def
          default_extensions_def path_name_def Path_of_def components_def split_def)
  have n: "''missing/out.txt'' \<noteq> []" by simp
  show ?thesis
    using concatenate_returns_document [of simple_from_lines "''proj''" ?es "Some ''missing/out.txt''" None example_world
             example_world "''missing/out.txt''" ENOENT] w d n
    by blast
qed

section \<open>Splitting: chunks without a newline, and an input that cannot be read\<close>

lemma split_once_aux_None:
  "c \<notin> set s \<Longrightarrow> split_once_aux [c] cur s = None"
  by (induction s arbitrary: cur) auto

lemma split_once_aux_Some:
  "c \<notin> set p \<Longrightarrow> split_once_aux [c] cur (p @ c # rest) = Some (cur @ p, rest)"
  by (induction p arbitrary: cur) auto

lemma marker_Cons: "prefix marker (c # cs) \<Longrightarrow> c = CHR 0x0A"
  by (simp add: marker_def)

lemma split_aux_no_newline:
  "CHR 0x0A \<notin> set x \<Longrightarrow> split_aux marker cur (x @ s) = split_aux marker (cur @ x) s"
proof (induction x arbitrary: cur)
  case Nil
  show ?case by simp
next
  case (Cons a x)
  then have "\<not> prefix marker (a # x @ s)"
    using marker_Cons by fastforce
  then show ?case
    using Cons by simp
qed

lemma split_aux_marker: "split_aux marker cur (marker @ s) = cur # split_aux marker [] s"
  by (simp add: marker_def)

lemma process_chunks_skip:
  "CHR 0x0A \<notin> set chunk \<Longrightarrow>
     process_chunks output_dir (before @ chunk # after) w = process_chunks output_dir (before @ after) w"
proof (induction before arbitrary: w)
  case Nil
  then show ?case
    by (simp add: split_once_def split_once_aux_None)
next
  case (Cons b before)
  then have IH: "process_chunks output_dir (before @ chunk # after) w' =
      process_chunks output_dir (before @ after) w'" for w'
    by simp
  show ?case
    by (simp add: IH Let_def split: option.splits sum.splits prod.splits)
qed

text \<open>
  Claim C6. A chunk without a newline is skipped: the loop over the chunks does with
  such a chunk in the list exactly what it does without it, so no file is written for it,
  no exception comes from it, and the chunks before and after it are processed as usual.
  In particular, when the input is a marker line followed by the end of the input, the
  split returns normally and leaves the file system and the output as they were.
\<close>

theorem chunk_without_newline_skipped:
  "(CHR 0x0A \<notin> set chunk \<longrightarrow>
      process_chunks output_dir (before @ chunk # after) w =
        process_chunks output_dir (before @ after) w) \<and>
   (CHR 0x0A \<notin> set chunk \<and>
    open_read (fs w) (cwd w) input_file = Inr (marker @ chunk) \<longrightarrow>
      split_concatenated_file input_file output_dir w = Inr w)"
proof (intro conjI impI)
  assume "CHR 0x0A \<notin> set chunk"
  then show "process_chunks output_dir (before @ chunk # after) w =
        process_chunks output_dir (before @ after) w"
    by (rule process_chunks_skip)
next
  assume a: "CHR 0x0A \<notin> set chunk \<and>
    open_read (fs w) (cwd w) input_file = Inr (marker @ chunk)"
  then have "split_aux marker [] (chunk @ []) = split_aux marker ([] @ chunk) []"
    by (intro split_aux_no_newline) simp
  then have "split (marker @ chunk) marker = [[], chunk]"
    by (simp add: split_def split_aux_marker)
  moreover have "process_chunks output_dir ([] @ chunk # []) w = process_chunks output_dir ([] @ []) w"
    using a by (intro process_chunks_skip) simp
  ultimately show "split_concatenated_file input_file output_dir w = Inr w"
    using a by (simp add: split_concatenated_file_def strip_def lstrip_def rstrip_def)
qed

theorem chunk_without_newline_skipped_witness:
  "open_read (fs (example_world\<lparr>fs := (fs example_world)([''work'', ''doc.txt''] \<mapsto> FileN (marker @ ''a.py''))\<rparr>))
     [''work''] ''doc.txt'' = Inr (marker @ ''a.py'') \<and>
   split_concatenated_file ''doc.txt'' ''out''
     (example_world\<lparr>fs := (fs example_world)([''work'', ''doc.txt''] \<mapsto> FileN (marker @ ''a.py''))\<rparr>) =
     Inr (example_world\<lparr>fs := (fs example_world)([''work'', ''doc.txt''] \<mapsto> FileN (marker @ ''a.py''))\<rparr>)"
proof -
  let ?w = "example_world\<lparr>fs := (fs example_world)([''work'', ''doc.txt''] \<mapsto> FileN (marker @ ''a.py''))\<rparr>"
  have p: "Path_of ''doc.txt'' = Path [] [''doc.txt'']"
    by (simp add: Path_of_def components_def split_def posix_root_def)
  have r: "open_read (fs ?w) (cwd ?w) ''doc.txt'' = Inr (marker @ ''a.py'')"
    by (simp add: open_read_def p read_text_def resolve_def step_def example_world_def)
  have c: "cwd ?w = [''work'']"
    by (simp add: example_world_def)
  have n: "CHR 0x0A \<notin> set ''a.py''"
    by simp
  show ?thesis
    using chunk_without_newline_skipped [of "''a.py''" "''out''" "[]" "[]" ?w "''doc.txt''"] r n
    unfolding c by blast
qed

text \<open>
  Claim C7. When reading the input file fails, \<open>split_concatenated_file\<close> prints the
  error and returns at once: the file system is unchanged, so no file is written and no
  directory is made.
\<close>

theorem split_read_failure:
  "open_read (fs w) (cwd w) input_file = Inl e \<Longrightarrow>
     split_concatenated_file input_file output_dir w = Inr (print InputReadError w) \<and>
     fs (print InputReadError w) = fs w \<and>
     stdout (print InputReadError w) = stdout w @ [InputReadError]"
  by (simp add: split_concatenated_file_def print_def)

theorem split_read_failure_witness:
  "open_read (fs example_world) (cwd example_world) ''missing.txt'' = Inl ENOENT \<and>
   split_concatenated_file ''missing.txt'' ''out'' example_world = Inr (print InputReadError example_world) \<and>
   fs (print InputReadError example_world) = fs example_world"
proof -
  have p: "Path_of ''missing.txt'' = Path [] [''missing.txt'']"
    by (simp add: Path_of_def components_def split_def posix_root_def)
  have r: "open_read (fs example_world) (cwd example_world) ''missing.txt'' = Inl ENOENT"
    by (simp add: open_read_def p read_text_def resolve_def step_def example_world_def)
  show ?thesis
    using split_read_failure [OF r, of "''out''"] r by simp
qed

section \<open>Paths of valid names\<close>

lemma split_aux_char_no:
  "c \<notin> set x \<Longrightarrow> split_aux [c] cur x = [cur @ x]"
  by (induction x arbitrary: cur) auto

lemma split_aux_char:
  "c \<notin> set x \<Longrightarrow> split_aux [c] cur (x @ c # s) = (cur @ x) # split_aux [c] [] s"
  by (induction x arbitrary: cur) auto

lemma split_join:
  "names \<noteq> [] \<Longrightarrow> \<forall>n \<in> set names. CHR ''/'' \<notin> set n \<Longrightarrow> split_aux ''/'' [] (join ''/'' names) = names"
proof (induction "''/''" names rule: join.induct)
  case 1
  then show ?case by simp
next
  case (2 x)
  then show ?case by (simp add: split_aux_char_no)
next
  case (3 x y ys)
  then have "split_aux ''/'' [] (x @ CHR ''/'' # join ''/'' (y # ys)) = ([] @ x) # split_aux ''/'' [] (join ''/'' (y # ys))"
    by (intro split_aux_char) simp
  then show ?case using 3 by simp
qed


lemma join_hd:
  "names \<noteq> [] \<Longrightarrow> hd names \<noteq> [] \<Longrightarrow> \<exists>cs. join sep names = hd (hd names) # cs"
proof (induction sep names rule: join.induct)
  case (1 sep)
  then show ?case by simp
next
  case (2 sep x)
  then show ?case by (cases x) simp_all
next
  case (3 sep x y ys)
  then show ?case by (cases x) simp_all
qed



lemma Path_of_abs:
  assumes "names \<noteq> []" "\<forall>n \<in> set names. valid_name n"
  shows "Path_of (CHR ''/'' # join ''/'' names) = Path ''/'' names"
proof -
  have "hd names \<noteq> []" "CHR ''/'' \<notin> set (hd names)"
    using assms by (auto simp: valid_name_def)
  then obtain cs where cs: "join ''/'' names = hd (hd names) # cs" "hd (hd names) \<noteq> CHR ''/''"
    using join_hd [of names "''/''"] assms(1) by (metis list.set_sel(1))
  then have r: "posix_root (CHR ''/'' # join ''/'' names) = ''/''"
    by (simp add: posix_root_def)
  have "split_aux ''/'' [] ([] @ CHR ''/'' # join ''/'' names) = ([] @ []) # split_aux ''/'' [] (join ''/'' names)"
    by (intro split_aux_char) simp
  then have "split (CHR ''/'' # join ''/'' names) ''/'' = [] # names"
    using assms by (simp add: split_def split_join valid_name_def)
  moreover have "filter (\<lambda>c. c \<noteq> [] \<and> c \<noteq> ''.'') names = names"
    using assms(2) by (auto simp: valid_name_def filter_id_conv)
  ultimately have "components (CHR ''/'' # join ''/'' names) = names"
    by (simp add: components_def)
  then show ?thesis
    by (simp add: Path_of_def r)
qed


lemma joinpath_abs:
  assumes "names \<noteq> []" "\<forall>n \<in> set names. valid_name n"
  shows "joinpath p (CHR ''/'' # join ''/'' names) = Path ''/'' names"
  using assms by (simp add: joinpath_def Path_of_abs)

section \<open>Making directories and writing files\<close>

lemma walk_dirs_append:
  "walk_dirs f l (ps @ qs) = (case walk_dirs f l ps of Inl e \<Rightarrow> Inl e | Inr d \<Rightarrow> walk_dirs f d qs)"
  by (induction ps arbitrary: l) (auto split: option.splits node.splits)

lemma walk_dirs_mono:
  "walk_dirs f l ps = Inr d \<Longrightarrow> (\<And>k. f k = Some DirN \<Longrightarrow> g k = Some DirN) \<Longrightarrow> walk_dirs g l ps = Inr d"
proof (induction ps arbitrary: l)
  case Nil
  then show ?case by simp
next
  case (Cons c cs)
  from Cons.prems(1) have "f (step l c) = Some DirN"
    by (auto split: option.splits node.splits)
  with Cons show ?case
    by simp
qed

lemma step_valid: "valid_name x \<Longrightarrow> step l x = l @ [x]"
  by (simp add: step_def valid_name_def)

lemma walk_dirs_names:
  assumes "\<forall>x \<in> set ds. valid_name x"
    and "\<forall>q. q \<noteq> [] \<and> prefix q ds \<longrightarrow> f (d @ q) = Some DirN"
  shows "walk_dirs f d ds = Inr (d @ ds)"
  using assms
proof (induction ds arbitrary: d)
  case Nil
  then show ?case by simp
next
  case (Cons x ds)
  have x: "f (d @ [x]) = Some DirN"
    using Cons.prems(2) by simp
  have "walk_dirs f (d @ [x]) ds = Inr ((d @ [x]) @ ds)"
  proof (rule Cons.IH)
    show "\<forall>x \<in> set ds. valid_name x"
      using Cons.prems(1) by simp
    show "\<forall>q. q \<noteq> [] \<and> prefix q ds \<longrightarrow> f ((d @ [x]) @ q) = Some DirN"
      using Cons.prems(2) by (auto dest: spec [where x = "x # q" for q])
  qed
  then show ?case
    using Cons.prems(1) x by (simp add: step_valid)
qed

lemma walk_dirs_names_missing:
  assumes "\<forall>x \<in> set ds. valid_name x"
    and "\<forall>q t. q \<noteq> [] \<and> prefix q ds \<longrightarrow> f (d @ q) \<noteq> Some (FileN t)"
  shows "walk_dirs f d ds = Inr (d @ ds) \<or> walk_dirs f d ds = Inl ENOENT"
  using assms
proof (induction ds arbitrary: d)
  case Nil
  then show ?case by simp
next
  case (Cons x ds)
  have "walk_dirs f (d @ [x]) ds = Inr ((d @ [x]) @ ds) \<or> walk_dirs f (d @ [x]) ds = Inl ENOENT"
  proof (rule Cons.IH)
    show "\<forall>x \<in> set ds. valid_name x"
      using Cons.prems(1) by simp
    show "\<forall>q t. q \<noteq> [] \<and> prefix q ds \<longrightarrow> f ((d @ [x]) @ q) \<noteq> Some (FileN t)"
      using Cons.prems(2) by (auto dest: spec [where x = "x # q" for q])
  qed
  moreover have "\<forall>t. f (d @ [x]) \<noteq> Some (FileN t)"
    using Cons.prems(2) by simp
  ultimately show ?case
    using Cons.prems(1) by (auto simp: step_valid split: option.splits node.splits)
qed

lemma mk_dirs_apply:
  "mk_dirs f d ds l = (if \<exists>q. q \<noteq> [] \<and> prefix q ds \<and> l = d @ q then Some DirN else f l)"
proof (induction ds arbitrary: f d)
  case Nil
  show ?case by simp
next
  case (Cons x ds)
  have "(\<exists>q. q \<noteq> [] \<and> prefix q (x # ds) \<and> l = d @ q) \<longleftrightarrow>
        l = d @ [x] \<or> (\<exists>q. q \<noteq> [] \<and> prefix q ds \<and> l = (d @ [x]) @ q)"
  proof
    assume "\<exists>q. q \<noteq> [] \<and> prefix q (x # ds) \<and> l = d @ q"
    then obtain q where q: "q \<noteq> []" "prefix q (x # ds)" "l = d @ q"
      by blast
    then obtain q' where q': "q = x # q'" "prefix q' ds"
      by (cases q) auto
    show "l = d @ [x] \<or> (\<exists>q. q \<noteq> [] \<and> prefix q ds \<and> l = (d @ [x]) @ q)"
      using q q' by (cases "q' = []") auto
  next
    assume "l = d @ [x] \<or> (\<exists>q. q \<noteq> [] \<and> prefix q ds \<and> l = (d @ [x]) @ q)"
    then show "\<exists>q. q \<noteq> [] \<and> prefix q (x # ds) \<and> l = d @ q"
    proof
      assume "l = d @ [x]"
      then show ?thesis
        by (intro exI [of _ "[x]"]) simp
    next
      assume "\<exists>q. q \<noteq> [] \<and> prefix q ds \<and> l = (d @ [x]) @ q"
      then obtain q where "q \<noteq> []" "prefix q ds" "l = (d @ [x]) @ q"
        by blast
      then show ?thesis
        by (intro exI [of _ "x # q"]) simp
    qed
  qed
  then show ?case
    by (auto simp: Cons.IH)
qed

lemma mk_dirs_snoc: "mk_dirs f d (ds @ [x]) = (mk_dirs f d ds)(d @ ds @ [x] \<mapsto> DirN)"
proof
  fix l
  have "(\<exists>q. q \<noteq> [] \<and> prefix q (ds @ [x]) \<and> l = d @ q) \<longleftrightarrow>
        l = d @ ds @ [x] \<or> (\<exists>q. q \<noteq> [] \<and> prefix q ds \<and> l = d @ q)"
    by (auto simp: prefix_snoc)
  then show "mk_dirs f d (ds @ [x]) l = ((mk_dirs f d ds)(d @ ds @ [x] \<mapsto> DirN)) l"
    by (simp add: mk_dirs_apply)
qed

lemma mk_dirs_keeps: "f k = Some DirN \<Longrightarrow> mk_dirs f d ds k = Some DirN"
  by (simp add: mk_dirs_apply)

lemma resolve_start:
  "resolve f wd (Path r ps) =
     (case walk_dirs f (if r = [] then wd else []) (butlast ps) of
        Inl e \<Rightarrow> Inl e
      | Inr d \<Rightarrow> Inr (if ps = [] then d else step d (last ps)))"
  by (auto simp: resolve_def split: sum.splits)

lemma resolve_of_walk:
  assumes "walk_dirs f start po = Inr d" "start = (if r = [] then wd else [])"
  shows "resolve f wd (Path r po) = Inr d"
proof (cases po rule: rev_cases)
  case Nil
  then show ?thesis
    using assms(1) unfolding resolve_start assms(2) [symmetric] by simp
next
  case (snoc bs x)
  then show ?thesis
    using assms(1) unfolding resolve_start assms(2) [symmetric]
    by (auto simp: walk_dirs_append split: sum.splits option.splits node.splits)
qed

lemma resolve_below:
  assumes "walk_dirs f start po = Inr d" "start = (if r = [] then wd else [])"
    and "walk_dirs f d ds = Inr d'"
  shows "resolve f wd (Path r (po @ ds @ [x])) = Inr (step d' x)"
proof -
  have "butlast (po @ ds @ [x]) = po @ ds"
    by (simp add: butlast_append)
  then show ?thesis
    using assms(1,3) unfolding resolve_start assms(2) [symmetric]
    by (simp add: walk_dirs_append)
qed

lemma walk_dirs_names_conv:
  assumes "\<forall>x \<in> set ds. valid_name x" "walk_dirs f d ds = Inr d'"
  shows "\<forall>q. q \<noteq> [] \<and> prefix q ds \<longrightarrow> f (d @ q) = Some DirN"
  using assms
proof (induction ds arbitrary: d)
  case Nil
  then show ?case by simp
next
  case (Cons x ds)
  have x: "f (d @ [x]) = Some DirN" and rest: "walk_dirs f (d @ [x]) ds = Inr d'"
    using Cons.prems by (auto simp: step_valid split: option.splits node.splits)
  have IH: "\<forall>q. q \<noteq> [] \<and> prefix q ds \<longrightarrow> f ((d @ [x]) @ q) = Some DirN"
    using Cons.prems(1) rest by (intro Cons.IH) simp_all
  show ?case
  proof (intro allI impI)
    fix q
    assume q: "q \<noteq> [] \<and> prefix q (x # ds)"
    then obtain q' where q': "q = x # q'" "prefix q' ds"
      by (cases q) auto
    show "f (d @ q) = Some DirN"
      using x IH q' by (cases "q' = []") auto
  qed
qed

lemma mk_dirs_existing:
  assumes "\<forall>q. q \<noteq> [] \<and> prefix q ds \<longrightarrow> f (d @ q) = Some DirN"
  shows "mk_dirs f d ds = f"
  using assms by (auto simp: fun_eq_iff mk_dirs_apply)

lemma last_mkdir:
  assumes W: "walk_dirs g start po = Inr d" and S: "start = (if r = [] then wd else [])"
    and below: "walk_dirs g d ds = Inr (d @ ds)" and x: "valid_name x"
    and nofile: "\<forall>t. g (d @ ds @ [x]) \<noteq> Some (FileN t)"
  shows "os_mkdir g wd (Path r (po @ ds @ [x])) = Inr (g(d @ ds @ [x] \<mapsto> DirN)) \<or>
         os_mkdir g wd (Path r (po @ ds @ [x])) = Inl EEXIST \<and>
           is_dir g wd (Path r (po @ ds @ [x])) \<and> g(d @ ds @ [x] \<mapsto> DirN) = g"
proof -
  have r: "resolve g wd (Path r (po @ ds @ [x])) = Inr (d @ ds @ [x])"
    using resolve_below [OF W S below, of x] x by (simp add: step_valid)
  show ?thesis
  proof (cases "g (d @ ds @ [x])")
    case None
    then show ?thesis by (simp add: os_mkdir_def r)
  next
    case (Some nd)
    then have "g (d @ ds @ [x]) = Some DirN"
      using nofile by (cases nd) auto
    then show ?thesis
      by (auto simp: os_mkdir_def is_dir_def r)
  qed
qed

lemma mkdir_parents_below:
  assumes W: "walk_dirs f start po = Inr d" and S: "start = (if r = [] then wd else [])"
    and D: "f d = Some DirN"
    and V: "\<forall>x \<in> set ds. valid_name x"
    and P: "\<forall>q t. q \<noteq> [] \<and> prefix q ds \<longrightarrow> f (d @ q) \<noteq> Some (FileN t)"
  shows "mkdir_parents f wd (Path r (po @ ds)) = Inr (mk_dirs f d ds)"
  using V P
proof (induction ds rule: rev_induct)
  case Nil
  have "resolve f wd (Path r po) = Inr d"
    using W S by (rule resolve_of_walk)
  then have "os_mkdir f wd (Path r po) = Inl EEXIST" "is_dir f wd (Path r po)"
    using D by (simp_all add: os_mkdir_def is_dir_def)
  then show ?case
    by (subst mkdir_parents.simps) simp
next
  case (snoc x ds)
  let ?p = "Path r (po @ ds @ [x])"
  let ?g = "mk_dirs f d ds"
  have V': "\<forall>x \<in> set ds. valid_name x" and x: "valid_name x"
    using snoc.prems(1) by simp_all
  have P': "\<forall>q t. q \<noteq> [] \<and> prefix q ds \<longrightarrow> f (d @ q) \<noteq> Some (FileN t)"
    using snoc.prems(2) by (auto simp: prefix_snoc)
  have IH: "mkdir_parents f wd (Path r (po @ ds)) = Inr ?g"
    using V' P' by (rule snoc.IH)
  have target: "\<forall>t. f (d @ ds @ [x]) \<noteq> Some (FileN t)"
    using snoc.prems(2) by (auto dest: spec [where x = "ds @ [x]"])
  have par: "parent ?p = Path r (po @ ds)" "parts ?p \<noteq> []"
    by (simp_all add: parent_def butlast_append)
  consider (there) "walk_dirs f d ds = Inr (d @ ds)" | (missing) "walk_dirs f d ds = Inl ENOENT"
    using walk_dirs_names_missing [OF V' P'] by blast
  then show ?case
  proof cases
    case there
    have same: "?g = f"
      using walk_dirs_names_conv [OF V' there] by (rule mk_dirs_existing)
    have "os_mkdir f wd ?p = Inr (f(d @ ds @ [x] \<mapsto> DirN)) \<or>
         os_mkdir f wd ?p = Inl EEXIST \<and> is_dir f wd ?p \<and> f(d @ ds @ [x] \<mapsto> DirN) = f"
      using W S there x target by (rule last_mkdir)
    then have "mkdir_parents f wd ?p = Inr (f(d @ ds @ [x] \<mapsto> DirN))"
      by (subst mkdir_parents.simps) auto
    then show ?thesis
      unfolding mk_dirs_snoc same .
  next
    case missing
    have "resolve f wd ?p = Inl ENOENT"
    proof -
      have "butlast (po @ ds @ [x]) = po @ ds"
        by (simp add: butlast_append)
      then show ?thesis
        using W missing unfolding resolve_start S [symmetric] by (simp add: walk_dirs_append)
    qed
    then have first: "os_mkdir f wd ?p = Inl ENOENT"
      by (simp add: os_mkdir_def)
    have Wg: "walk_dirs ?g start po = Inr d"
      using W by (rule walk_dirs_mono) (rule mk_dirs_keeps)
    have below: "walk_dirs ?g d ds = Inr (d @ ds)"
      using V' by (rule walk_dirs_names) (simp add: mk_dirs_apply)
    have "?g (d @ ds @ [x]) = f (d @ ds @ [x])"
      by (auto simp: mk_dirs_apply dest: prefix_length_le)
    then have targ: "\<forall>t. ?g (d @ ds @ [x]) \<noteq> Some (FileN t)"
      using target by simp
    have "os_mkdir ?g wd ?p = Inr (?g(d @ ds @ [x] \<mapsto> DirN)) \<or>
         os_mkdir ?g wd ?p = Inl EEXIST \<and> is_dir ?g wd ?p \<and> ?g(d @ ds @ [x] \<mapsto> DirN) = ?g"
      using Wg S below x targ by (rule last_mkdir)
    then have "mkdir_parents f wd ?p = Inr (?g(d @ ds @ [x] \<mapsto> DirN))"
      by (subst mkdir_parents.simps) (auto simp: first par IH)
    then show ?thesis
      unfolding mk_dirs_snoc .
  qed
qed

lemma write_text_below:
  assumes W: "walk_dirs f start po = Inr d" and S: "start = (if r = [] then wd else [])"
    and V: "\<forall>x \<in> set ds. valid_name x" and n: "valid_name n"
    and T: "f (d @ ds @ [n]) \<noteq> Some DirN"
  shows "write_text (mk_dirs f d ds) wd (Path r (po @ ds @ [n])) s =
           Inr ((mk_dirs f d ds)(d @ ds @ [n] \<mapsto> FileN s))"
proof -
  let ?g = "mk_dirs f d ds"
  have Wg: "walk_dirs ?g start po = Inr d"
    using W by (rule walk_dirs_mono) (rule mk_dirs_keeps)
  have below: "walk_dirs ?g d ds = Inr (d @ ds)"
    using V by (rule walk_dirs_names) (simp add: mk_dirs_apply)
  have r: "resolve ?g wd (Path r (po @ ds @ [n])) = Inr (d @ ds @ [n])"
    using resolve_below [OF Wg S below, of n] n by (simp add: step_valid)
  have "?g (d @ ds @ [n]) = f (d @ ds @ [n])"
    by (auto simp: mk_dirs_apply dest: prefix_length_le)
  then have "?g (d @ ds @ [n]) \<noteq> Some DirN"
    using T by simp
  then show ?thesis
    by (auto simp: write_text_def r split: option.splits node.splits)
qed


section \<open>Where the split writes\<close>

lemma join_chars:
  "c \<notin> set sep \<Longrightarrow> \<forall>n \<in> set names. c \<notin> set n \<Longrightarrow> c \<notin> set (join sep names)"
  by (induction sep names rule: join.induct) auto

lemma process_chunks_absolute:
  assumes names: "\<forall>x \<in> set (ds @ [n]). valid_name x \<and> CHR 0x0A \<notin> set x"
    and root_dir: "fs w [] = Some DirN"
    and dirs: "\<forall>q t. q \<noteq> [] \<and> prefix q ds \<longrightarrow> fs w q \<noteq> Some (FileN t)"
    and target: "fs w (ds @ [n]) \<noteq> Some DirN"
  shows "process_chunks output_dir [CHR ''/'' # join ''/'' (ds @ [n]) @ CHR 0x0A # content] w =
       Inr (print (Written (Path ''/'' (ds @ [n])))
              (w\<lparr>fs := (mk_dirs (fs w) [] ds)(ds @ [n] \<mapsto> FileN (rstrip content))\<rparr>))"
proof -
  have valid: "\<forall>x \<in> set (ds @ [n]). valid_name x" "\<forall>x \<in> set ds. valid_name x" "valid_name n"
    using names by auto
  have "CHR 0x0A \<notin> set (join ''/'' (ds @ [n]))"
    using names by (intro join_chars) auto
  then have "CHR 0x0A \<notin> set (CHR ''/'' # join ''/'' (ds @ [n]))"
    by simp
  then have "split_once_aux [CHR 0x0A] [] ((CHR ''/'' # join ''/'' (ds @ [n])) @ CHR 0x0A # content) =
      Some ([] @ CHR ''/'' # join ''/'' (ds @ [n]), content)"
    by (rule split_once_aux_Some)
  then have so: "split_once (CHR ''/'' # join ''/'' (ds @ [n]) @ CHR 0x0A # content) [CHR 0x0A] =
      Some (CHR ''/'' # join ''/'' (ds @ [n]), content)"
    by (simp add: split_once_def)
  have jp: "joinpath (Path_of output_dir) (CHR ''/'' # join ''/'' (ds @ [n])) = Path ''/'' (ds @ [n])"
    using valid(1) by (intro joinpath_abs) simp_all
  have par: "parent (Path ''/'' (ds @ [n])) = Path ''/'' ([] @ ds)"
    by (simp add: parent_def)
  have W: "walk_dirs (fs w) [] [] = Inr []"
    by simp
  have S: "[] = (if ''/'' = [] then cwd w else [])"
    by simp
  have mk: "mkdir_parents (fs w) (cwd w) (Path ''/'' ([] @ ds)) = Inr (mk_dirs (fs w) [] ds)"
    using W S root_dir valid(2) by (rule mkdir_parents_below) (use dirs in simp)
  have wr: "write_text (mk_dirs (fs w) [] ds) (cwd w) (Path ''/'' ([] @ ds @ [n])) (rstrip content) =
      Inr ((mk_dirs (fs w) [] ds)([] @ ds @ [n] \<mapsto> FileN (rstrip content)))"
    using W S valid(2,3) by (rule write_text_below) (use target in simp)
  show ?thesis
    using mk wr by (simp add: so jp par)
qed

lemma Path_of_dotdot:
  assumes "valid_name n"
  shows "Path_of (''../'' @ n) = Path [] [''..'', n]"
proof -
  have n: "CHR ''/'' \<notin> set n" "n \<noteq> []" "n \<noteq> ''.''"
    using assms by (simp_all add: valid_name_def)
  have "split_aux ''/'' [] (''..'' @ CHR ''/'' # n) = ([] @ ''..'') # split_aux ''/'' [] n"
    by (intro split_aux_char) simp
  then have "split (''../'' @ n) ''/'' = [''..'', n]"
    using n(1) by (simp add: split_def split_aux_char_no)
  then show ?thesis
    using n by (simp add: Path_of_def components_def posix_root_def)
qed

lemma process_chunks_dotdot:
  assumes n: "valid_name n" "CHR 0x0A \<notin> set n"
    and W: "walk_dirs (fs w) (if root (Path_of output_dir) = [] then cwd w else [])
              (parts (Path_of output_dir)) = Inr d"
    and up: "fs w (butlast d) = Some DirN"
    and target: "fs w (butlast d @ [n]) \<noteq> Some DirN"
  shows "process_chunks output_dir [''../'' @ n @ CHR 0x0A # content] w =
       Inr (print (Written (Path (root (Path_of output_dir)) (parts (Path_of output_dir) @ [''..'', n])))
              (w\<lparr>fs := (fs w)(butlast d @ [n] \<mapsto> FileN (rstrip content))\<rparr>))"
proof -
  define r where "r = root (Path_of output_dir)"
  define po where "po = parts (Path_of output_dir)"
  define start where "start = (if r = [] then cwd w else [])"
  have O: "Path_of output_dir = Path r po"
    by (simp add: r_def po_def)
  have W': "walk_dirs (fs w) start po = Inr d"
    using W by (simp add: start_def r_def po_def)
  define fp where "fp = ''../'' @ n"
  have "CHR 0x0A \<notin> set fp"
    using n(2) by (simp add: fp_def)
  then have "split_once_aux [CHR 0x0A] [] (fp @ CHR 0x0A # content) = Some ([] @ fp, content)"
    by (rule split_once_aux_Some)
  then have so: "split_once (fp @ CHR 0x0A # content) [CHR 0x0A] = Some (fp, content)"
    by (simp add: split_once_def)
  have jp: "joinpath (Path_of output_dir) fp = Path r (po @ [''..'', n])"
    unfolding joinpath_def fp_def Path_of_dotdot [OF n(1)] O by simp
  have par: "parent (Path r (po @ [''..'', n])) = Path r (po @ [''..''])"
    by (simp add: parent_def butlast_append)
  have "resolve (fs w) (cwd w) (Path r (po @ [''..''])) = Inr (butlast d)"
    unfolding resolve_start start_def [symmetric] using W' by (simp add: step_def)
  then have "os_mkdir (fs w) (cwd w) (Path r (po @ [''..''])) = Inl EEXIST"
    "is_dir (fs w) (cwd w) (Path r (po @ [''..'']))"
    using up by (simp_all add: os_mkdir_def is_dir_def)
  then have mk: "mkdir_parents (fs w) (cwd w) (Path r (po @ [''..''])) = Inr (fs w)"
    by (subst mkdir_parents.simps) simp
  have "butlast (po @ [''..'', n]) = po @ [''..'']"
    by (simp add: butlast_append)
  then have "resolve (fs w) (cwd w) (Path r (po @ [''..'', n])) = Inr (butlast d @ [n])"
    unfolding resolve_start start_def [symmetric]
    using W' up n(1) by (simp add: walk_dirs_append step_def valid_name_def)
  then have wr: "write_text (fs w) (cwd w) (Path r (po @ [''..'', n])) (rstrip content) =
      Inr ((fs w)(butlast d @ [n] \<mapsto> FileN (rstrip content)))"
    using target by (auto simp: write_text_def split: option.splits node.splits)
  have "process_chunks output_dir [fp @ CHR 0x0A # content] w =
       Inr (print (Written (Path r (po @ [''..'', n])))
              (w\<lparr>fs := (fs w)(butlast d @ [n] \<mapsto> FileN (rstrip content))\<rparr>))"
    using mk wr by (simp add: so jp par)
  then show ?thesis
    by (simp add: fp_def r_def po_def)
qed

text \<open>
  Claim C10. The path of a marker line is joined to \<open>output_dir\<close> and used as it is:
  for every chunk with a newline, the parent of the joined path is made and the joined
  path is written, with no test in between; and the join of an absolute path is that
  path. So an absolute path replaces \<open>output_dir\<close>: whatever \<open>output_dir\<close> is, the chunk of the
  path \<open>/ds/n\<close> makes the directories \<open>ds\<close> from the root and writes the file
  \<open>/ds/n\<close>, replacing a file that is there. And a path \<open>../m\<close> writes the file \<open>m\<close>
  in the parent of the output directory \<open>d\<close>, a location that is not below \<open>d\<close>.
\<close>

theorem no_containment_check:
  "(split_once chunk [CHR 0x0A] = Some (file_path, content) \<longrightarrow>
      process_chunks output_dir (chunk # rest) w =
        (case mkdir_parents (fs w) (cwd w) (parent (joinpath (Path_of output_dir) file_path)) of
           Inl e \<Rightarrow> Inl e
         | Inr fs1 \<Rightarrow>
             (case write_text fs1 (cwd w) (joinpath (Path_of output_dir) file_path) (rstrip content) of
                Inr fs2 \<Rightarrow>
                  process_chunks output_dir rest
                    (print (Written (joinpath (Path_of output_dir) file_path)) (w\<lparr>fs := fs2\<rparr>))
              | Inl e \<Rightarrow>
                  process_chunks output_dir rest
                    (print (WriteError (joinpath (Path_of output_dir) file_path)) (w\<lparr>fs := fs1\<rparr>))))) \<and>
   (root (Path_of file_path) \<noteq> [] \<longrightarrow>
      joinpath (Path_of output_dir) file_path = Path_of file_path) \<and>
   ((\<forall>x \<in> set (ds @ [n]). valid_name x \<and> CHR 0x0A \<notin> set x) \<and> fs w [] = Some DirN \<and>
    (\<forall>q t. q \<noteq> [] \<and> prefix q ds \<longrightarrow> fs w q \<noteq> Some (FileN t)) \<and> fs w (ds @ [n]) \<noteq> Some DirN \<longrightarrow>
      process_chunks output_dir [CHR ''/'' # join ''/'' (ds @ [n]) @ CHR 0x0A # content] w =
        Inr (print (Written (Path ''/'' (ds @ [n])))
               (w\<lparr>fs := (mk_dirs (fs w) [] ds)(ds @ [n] \<mapsto> FileN (rstrip content))\<rparr>))) \<and>
   (valid_name m \<and> CHR 0x0A \<notin> set m \<and>
    walk_dirs (fs w) (if root (Path_of output_dir) = [] then cwd w else [])
      (parts (Path_of output_dir)) = Inr d \<and>
    d \<noteq> [] \<and> fs w d = Some DirN \<and> fs w (butlast d) = Some DirN \<and> fs w (butlast d @ [m]) \<noteq> Some DirN \<longrightarrow>
      process_chunks output_dir [''../'' @ m @ CHR 0x0A # content] w =
        Inr (print (Written (Path (root (Path_of output_dir)) (parts (Path_of output_dir) @ [''..'', m])))
               (w\<lparr>fs := (fs w)(butlast d @ [m] \<mapsto> FileN (rstrip content))\<rparr>)) \<and>
      \<not> prefix d (butlast d @ [m]))"
proof (intro conjI impI)
  assume "split_once chunk [CHR 0x0A] = Some (file_path, content)"
  then show "process_chunks output_dir (chunk # rest) w =
        (case mkdir_parents (fs w) (cwd w) (parent (joinpath (Path_of output_dir) file_path)) of
           Inl e \<Rightarrow> Inl e
         | Inr fs1 \<Rightarrow>
             (case write_text fs1 (cwd w) (joinpath (Path_of output_dir) file_path) (rstrip content) of
                Inr fs2 \<Rightarrow>
                  process_chunks output_dir rest
                    (print (Written (joinpath (Path_of output_dir) file_path)) (w\<lparr>fs := fs2\<rparr>))
              | Inl e \<Rightarrow>
                  process_chunks output_dir rest
                    (print (WriteError (joinpath (Path_of output_dir) file_path)) (w\<lparr>fs := fs1\<rparr>))))"
    by (simp add: Let_def split: sum.splits)
next
  assume "root (Path_of file_path) \<noteq> []"
  then show "joinpath (Path_of output_dir) file_path = Path_of file_path"
    by (simp add: joinpath_def)
next
  assume "(\<forall>x \<in> set (ds @ [n]). valid_name x \<and> CHR 0x0A \<notin> set x) \<and> fs w [] = Some DirN \<and>
    (\<forall>q t. q \<noteq> [] \<and> prefix q ds \<longrightarrow> fs w q \<noteq> Some (FileN t)) \<and> fs w (ds @ [n]) \<noteq> Some DirN"
  then show "process_chunks output_dir [CHR ''/'' # join ''/'' (ds @ [n]) @ CHR 0x0A # content] w =
        Inr (print (Written (Path ''/'' (ds @ [n])))
               (w\<lparr>fs := (mk_dirs (fs w) [] ds)(ds @ [n] \<mapsto> FileN (rstrip content))\<rparr>))"
    by (intro process_chunks_absolute) blast+
next
  assume a: "valid_name m \<and> CHR 0x0A \<notin> set m \<and>
    walk_dirs (fs w) (if root (Path_of output_dir) = [] then cwd w else [])
      (parts (Path_of output_dir)) = Inr d \<and>
    d \<noteq> [] \<and> fs w d = Some DirN \<and> fs w (butlast d) = Some DirN \<and> fs w (butlast d @ [m]) \<noteq> Some DirN"
  then show "process_chunks output_dir [''../'' @ m @ CHR 0x0A # content] w =
        Inr (print (Written (Path (root (Path_of output_dir)) (parts (Path_of output_dir) @ [''..'', m])))
               (w\<lparr>fs := (fs w)(butlast d @ [m] \<mapsto> FileN (rstrip content))\<rparr>))"
    by (intro process_chunks_dotdot) blast+
  from a have "butlast d @ [m] \<noteq> d"
    by auto
  moreover have "length (butlast d @ [m]) = length d"
    using a by (cases d rule: rev_cases) simp_all
  ultimately show "\<not> prefix d (butlast d @ [m])"
    by (metis prefix_order.eq_iff prefix_length_le append_eq_append_conv prefix_def append_Nil2)
qed


theorem no_containment_check_witness:
  "root (Path_of ''/work/notes.txt'') \<noteq> [] \<and>
   joinpath (Path_of ''out'') ''/work/notes.txt'' = Path_of ''/work/notes.txt'' \<and>
   process_chunks ''out'' [CHR ''/'' # join ''/'' ([''work''] @ [''notes.txt'']) @ CHR 0x0A # ''gone''] outside_world =
     Inr (print (Written (Path ''/'' ([''work''] @ [''notes.txt''])))
            (outside_world\<lparr>fs := (mk_dirs (fs outside_world) [] [''work''])
                                     ([''work''] @ [''notes.txt''] \<mapsto> FileN (rstrip ''gone''))\<rparr>)) \<and>
   walk_dirs (fs outside_world) (if root (Path_of ''out'') = [] then cwd outside_world else [])
      (parts (Path_of ''out'')) = Inr [''work'', ''out''] \<and>
   process_chunks ''out'' [''../'' @ ''notes.txt'' @ CHR 0x0A # ''gone''] outside_world =
     Inr (print (Written (Path (root (Path_of ''out'')) (parts (Path_of ''out'') @ [''..'', ''notes.txt''])))
            (outside_world\<lparr>fs := (fs outside_world)
                                     (butlast [''work'', ''out''] @ [''notes.txt''] \<mapsto> FileN (rstrip ''gone''))\<rparr>)) \<and>
   \<not> prefix [''work'', ''out''] (butlast [''work'', ''out''] @ [''notes.txt''])"
proof -
  have v: "\<forall>x \<in> set ([''work''] @ [''notes.txt'']). valid_name x \<and> CHR 0x0A \<notin> set x"
    by (simp add: valid_name_def)
  have r: "fs outside_world [] = Some DirN"
    by (simp add: outside_world_def)
  have p: "\<forall>q t. q \<noteq> [] \<and> prefix q [''work''] \<longrightarrow> fs outside_world q \<noteq> Some (FileN t)"
    by (auto simp: outside_world_def prefix_Cons)
  have t: "fs outside_world ([''work''] @ [''notes.txt'']) \<noteq> Some DirN"
    by (simp add: outside_world_def)
  have m: "valid_name ''notes.txt''" "CHR 0x0A \<notin> set ''notes.txt''"
    by (simp_all add: valid_name_def)
  have po: "Path_of ''out'' = Path [] [''out'']"
    by (simp add: Path_of_def components_def split_def posix_root_def)
  have w: "walk_dirs (fs outside_world) (if root (Path_of ''out'') = [] then cwd outside_world else [])
      (parts (Path_of ''out'')) = Inr [''work'', ''out'']"
    unfolding po by (simp add: outside_world_def step_def)
  have d: "[''work'', ''out''] \<noteq> []" "fs outside_world [''work'', ''out''] = Some DirN"
    "fs outside_world (butlast [''work'', ''out'']) = Some DirN"
    "fs outside_world (butlast [''work'', ''out''] @ [''notes.txt'']) \<noteq> Some DirN"
    by (simp_all add: outside_world_def)
  have a: "root (Path_of ''/work/notes.txt'') \<noteq> []"
    by (simp add: Path_of_def posix_root_def)
  show ?thesis
    using no_containment_check [where ds = "[''work'']" and n = "''notes.txt''" and w = outside_world
        and m = "''notes.txt''" and output_dir = "''out''" and d = "[''work'', ''out'']"
        and content = "''gone''" and file_path = "''/work/notes.txt''"] v r p t m w d a
    by blast
qed

section \<open>Splitting a rendered document\<close>











section \<open>Writing the files of a list of sections\<close>







section \<open>The paths of the sections of a well-formed tree\<close>










section \<open>Concatenating and splitting again\<close>






end
